theory Spec2Isabelle
  imports Complex_Main "HOL-Library.Word"
begin

unbundle bit_operations_syntax

section \<open>Automobile edge costing (thor/autocost.cc)\<close>

text \<open>
  The costing model of \<^verbatim>\<open>src/thor/autocost.cc\<close>: the access check of a directed
  edge, the cost of an edge and the factor of the A* heuristic.

  Numbers. A finite C++ \<^verbatim>\<open>float\<close> is the \<^typ>\<open>real\<close> it denotes, and every
  arithmetic operation on floats rounds its exact result to binary32 (\<open>fl32\<close> below).
  The comparisons of \<^verbatim>\<open>dist2dest\<close> with the literals 50000, 10000 and 5000 are exact
  on floats. Unsigned integers whose range the data model fixes are words of that width.

  Memory. The member \<^verbatim>\<open>float speedfactor_[256]\<close> is a partial map from indices to
  values: an entry that no statement has written is \<open>None\<close>, and so is the result of a
  function that reads such an entry.
\<close>

subsection \<open>Records of the graph layer\<close>

text \<open>
  Modelled from the spec: \<^verbatim>\<open>baldr/graphid.h\<close>, \<^verbatim>\<open>baldr/directededge.h\<close> and
  \<^verbatim>\<open>baldr/nodeinfo.h\<close> declare the classes read here. The fields are the accessors
  that autocost.cc calls; \<open>speed\<close> ranges over 0..255 and \<open>localedgeidx\<close> over 0..31,
  \<open>length_m\<close> (the accessor \<^verbatim>\<open>length()\<close>) is in meters.
\<close>

record GraphId =
  level :: nat

record DirectedEdge =
  length_m :: real
  speed :: "8 word"
  localedgeidx :: "5 word"
  shortcut :: bool
  not_thru :: bool
  trans_up :: bool
  trans_down :: bool
  endnode :: GraphId
  forwardaccess :: "32 word"

record NodeInfo =
  access :: "32 word"

subsection \<open>Binary32 arithmetic\<close>

text \<open>
  IEEE 754 binary32 with the default rounding: a finite float is an integer multiple
  of \<open>2 powi (e - 23)\<close>, where \<open>e\<close> is the exponent of its binade, from \<open>- 126\<close> (which
  also holds the subnormal numbers) to 127.

  \<open>round_even\<close> rounds a real to the nearest integer, a tie to the even one.
  \<open>binade k a\<close> searches the exponent of \<open>a \<ge> 0\<close> downwards from \<open>int k - 126\<close>;
  \<open>binade 253 a\<close> is the greatest \<open>e\<close> in \<open>- 126..127\<close> with \<open>2 powi e \<le> a\<close>, and
  \<open>- 126\<close> when there is none. \<open>fl32 x\<close> is the float nearest to \<open>x\<close>.

  Infinities and NaN are not values of the model: a result of magnitude
  \<open>2 ^ 128 - 2 ^ 103\<close> or more, which C++ rounds to infinity, is rounded here on the grid
  of the top binade. The theorems about costs bound the length by \<open>2 ^ 100\<close>, which
  keeps every product with an entry of the constructed table (at most 3600) far below
  that range. Division is only used with a divisor that is not zero.
\<close>

definition round_even :: "real \<Rightarrow> int" where
  "round_even x =
     (let f = \<lfloor>x\<rfloor>; r = x - of_int f
      in if r < 1 / 2 then f
         else if 1 / 2 < r then f + 1
         else if even f then f else f + 1)"

fun binade :: "nat \<Rightarrow> real \<Rightarrow> int" where
  "binade 0 a = - 126"
| "binade (Suc k) a = (if 2 powi (int k - 125) \<le> a then int k - 125 else binade k a)"

definition fl32 :: "real \<Rightarrow> real" where
  "fl32 x =
     (let u = 2 powi (binade 253 \<bar>x\<bar> - 23)
      in of_int (round_even (x / u)) * u)"

text \<open>The operators \<^verbatim>\<open>*\<close> and \<^verbatim>\<open>/\<close> on two floats.\<close>

definition fmul :: "real \<Rightarrow> real \<Rightarrow> real" where
  "fmul a b = fl32 (a * b)"

definition fdiv :: "real \<Rightarrow> real \<Rightarrow> real" where
  "fdiv a b = fl32 (a / b)"

text \<open>
  Modelled from the spec: \<^verbatim>\<open>kSecPerHour\<close> of \<^verbatim>\<open>midgard/constants.h\<close>, the number
  of seconds per hour, a float.
\<close>

definition kSecPerHour :: real where
  "kSecPerHour = 3600"

text \<open>
  The access bit of the automobile mode, \<^verbatim>\<open>kAutoAccess\<close> of the graph constants, is
  a parameter of every function that tests it.
\<close>

subsection \<open>The costing object and its constructor\<close>

record AutoCost =
  speedfactor :: "nat \<rightharpoonup> real"

text \<open>
  The loop \<^verbatim>\<open>for (uint32_t s = 1; s < 255; s++)\<close> of the constructor, entered at
  \<open>s\<close>. The counter stays below 256, so it is a \<^typ>\<open>nat\<close>. The body is
  \<^verbatim>\<open>speedfactor_[s] = (kSecPerHour * 0.001f) / static_cast<float>(s)\<close>: the literal
  \<^verbatim>\<open>0.001f\<close> is the float nearest to 0.001, the cast rounds \<open>s\<close> to a float, and the
  product and the quotient are float operations.
\<close>

function fill_speedfactor :: "nat \<Rightarrow> (nat \<rightharpoonup> real) \<Rightarrow> (nat \<rightharpoonup> real)" where
  "fill_speedfactor s tbl =
     (if s < 255
      then fill_speedfactor (s + 1)
             (tbl(s \<mapsto> fdiv (fmul kSecPerHour (fl32 0.001)) (fl32 (real s))))
      else tbl)"
  by pat_completeness auto
termination
  by (relation "measure (\<lambda>(s, tbl). 255 - s)") auto

declare fill_speedfactor.simps [simp del]

text \<open>\<^verbatim>\<open>AutoCost::AutoCost()\<close>: the array starts with no entry written.\<close>

definition AutoCost_ctor :: AutoCost where
  "AutoCost_ctor =
     \<lparr> speedfactor = fill_speedfactor 1 (Map.empty(0 \<mapsto> kSecPerHour)) \<rparr>"

definition CreateAutoCost :: AutoCost where
  "CreateAutoCost = AutoCost_ctor"

subsection \<open>Access\<close>

text \<open>
  \<^verbatim>\<open>AutoCost::Allowed(edge, restriction, uturn, dist2dest)\<close>. The shift
  \<^verbatim>\<open>1 << edge->localedgeidx()\<close> is on 32 bits, with a shift count below 32.
\<close>

definition Allowed :: "32 word \<Rightarrow> DirectedEdge \<Rightarrow> 32 word \<Rightarrow> bool \<Rightarrow> real \<Rightarrow> bool" where
  "Allowed kAutoAccess edge restriction uturn dist2dest =
     (if restriction AND push_bit (unat (localedgeidx edge)) 1 \<noteq> 0 then False
      else if trans_up edge then
        (if level (endnode edge) = 0 then dist2dest > 50000 else dist2dest > 10000)
      else if trans_down edge then
        (if level (endnode edge) = 1 then dist2dest < 50000 else dist2dest < 10000)
      else if shortcut edge \<and> dist2dest < 10000 then False
      else if uturn \<or> (not_thru edge \<and> dist2dest > 5000) then False
      else forwardaccess edge AND kAutoAccess \<noteq> 0)"

text \<open>\<^verbatim>\<open>AutoCost::Allowed(node)\<close>.\<close>

definition Allowed_node :: "32 word \<Rightarrow> NodeInfo \<Rightarrow> bool" where
  "Allowed_node kAutoAccess node = (access node AND kAutoAccess \<noteq> 0)"

text \<open>The lambda returned by \<^verbatim>\<open>AutoCost::GetFilter()\<close>.\<close>

definition GetFilter :: "32 word \<Rightarrow> DirectedEdge \<Rightarrow> bool" where
  "GetFilter kAutoAccess =
     (\<lambda>edge. trans_up edge \<or> trans_down edge \<or> \<not> (forwardaccess edge AND kAutoAccess \<noteq> 0))"


subsection \<open>Cost\<close>

text \<open>
  \<^verbatim>\<open>AutoCost::Get\<close> and \<^verbatim>\<open>AutoCost::Seconds\<close>: the float product of the length,
  converted to float (the conversion changes nothing when the length is a float
  already), and the table's entry. The warning that \<^verbatim>\<open>Get\<close> logs for a speed above
  150 does not change the value returned and is left out.
\<close>

definition Get :: "AutoCost \<Rightarrow> DirectedEdge \<Rightarrow> real option" where
  "Get this edge =
     (case speedfactor this (unat (speed edge)) of
        None \<Rightarrow> None
      | Some f \<Rightarrow> Some (fmul (fl32 (length_m edge)) f))"

definition Seconds :: "AutoCost \<Rightarrow> DirectedEdge \<Rightarrow> real option" where
  "Seconds this edge =
     (case speedfactor this (unat (speed edge)) of
        None \<Rightarrow> None
      | Some f \<Rightarrow> Some (fmul (fl32 (length_m edge)) f))"

definition AStarCostFactor :: "AutoCost \<Rightarrow> real option" where
  "AStarCostFactor this = speedfactor this 120"

definition UnitSize :: "AutoCost \<Rightarrow> real" where
  "UnitSize this = 1"

subsection \<open>A sample edge\<close>

text \<open>
  An ordinary road edge, 1000 m at 60 km/h, that automobiles may use: the concrete input
  of the examples below, varied by record update.
\<close>

definition sample_edge :: DirectedEdge where
  "sample_edge =
     \<lparr> length_m = 1000, speed = 60, localedgeidx = 3, shortcut = False, not_thru = False,
       trans_up = False, trans_down = False, endnode = \<lparr> level = 0 \<rparr>, forwardaccess = 1 \<rparr>"


section \<open>Rounding to binary32\<close>

lemma round_even_error: "\<bar>of_int (round_even x) - x\<bar> \<le> 1 / 2"
  unfolding round_even_def Let_def by (auto simp: abs_le_iff)

lemma round_even_of_int: "round_even (of_int k) = k"
  by (simp add: round_even_def)

lemma round_even_mono: "x \<le> y \<Longrightarrow> round_even x \<le> round_even y"
proof -
  assume xy: "x \<le> y"
  have fm: "\<lfloor>x\<rfloor> \<le> \<lfloor>y\<rfloor>" using xy by (rule floor_mono)
  have lx: "round_even x \<le> \<lfloor>x\<rfloor> + 1"
    by (auto simp: round_even_def Let_def)
  have ly: "\<lfloor>y\<rfloor> \<le> round_even y"
    by (auto simp: round_even_def Let_def)
  show ?thesis
  proof (cases "\<lfloor>x\<rfloor> = \<lfloor>y\<rfloor>")
    case True
    then show ?thesis using xy by (auto simp: round_even_def Let_def)
  next
    case False
    then have "\<lfloor>x\<rfloor> + 1 \<le> \<lfloor>y\<rfloor>" using fm by linarith
    then show ?thesis using lx ly by linarith
  qed
qed

text \<open>The exponent found by the search is that of the binade of its argument.\<close>

lemma binade_range: "- 126 \<le> binade k a \<and> binade k a \<le> int k - 126"
  by (induction k) auto

lemma binade_lower: "binade k a \<noteq> - 126 \<Longrightarrow> 2 powi (binade k a) \<le> a"
  by (induction k) (auto split: if_splits)

lemma binade_upper: "binade k a < int k - 126 \<Longrightarrow> a < 2 powi (binade k a + 1)"
proof (induction k)
  case 0
  then show ?case by simp
next
  case (Suc k)
  show ?case
  proof (cases "2 powi (int k - 125) \<le> a")
    case True
    with Suc.prems show ?thesis by simp
  next
    case False
    then have b: "binade (Suc k) a = binade k a" by simp
    show ?thesis
    proof (cases "binade k a < int k - 126")
      case True
      then show ?thesis using Suc.IH b by simp
    next
      case False
      then have "binade k a = int k - 126" using binade_range [of k a] by linarith
      then have "binade (Suc k) a + 1 = int k - 125" using b by simp
      then have "(2 :: real) powi (binade (Suc k) a + 1) = 2 powi (int k - 125)"
        by (rule arg_cong)
      then show ?thesis using \<open>\<not> 2 powi (int k - 125) \<le> a\<close> by linarith
    qed
  qed
qed

lemma binade_eq:
  assumes "- 126 \<le> e" and "e \<le> 127" and "2 powi e \<le> a" and "a < 2 powi (e + 1)"
  shows "binade 253 a = e"
proof -
  let ?b = "binade 253 a"
  have r: "- 126 \<le> ?b" "?b \<le> 127" using binade_range [of 253 a] by auto
  have "\<not> e < ?b"
  proof
    assume l: "e < ?b"
    then have "2 powi ?b \<le> a" using assms(1) binade_lower [of 253 a] by linarith
    moreover have "(2 :: real) powi (e + 1) \<le> 2 powi ?b"
      using l by (intro power_int_increasing) auto
    ultimately show False using assms(4) by linarith
  qed
  moreover have "\<not> ?b < e"
  proof
    assume l: "?b < e"
    then have "a < 2 powi (?b + 1)" using assms(2) binade_upper [of 253 a] by simp
    moreover have "(2 :: real) powi (?b + 1) \<le> 2 powi e"
      using l by (intro power_int_increasing) auto
    ultimately show False using assms(3) by linarith
  qed
  ultimately show ?thesis by linarith
qed

lemma binade_mono:
  assumes "a \<le> b"
  shows "binade 253 a \<le> binade 253 b"
proof (rule ccontr)
  assume "\<not> binade 253 a \<le> binade 253 b"
  then have l: "binade 253 b < binade 253 a" by simp
  have ra: "binade 253 a \<le> 127" and rb: "- 126 \<le> binade 253 b"
    using binade_range [of 253 a] binade_range [of 253 b] by auto
  have "2 powi (binade 253 a) \<le> a" using l rb binade_lower [of 253 a] by linarith
  moreover have "b < 2 powi (binade 253 b + 1)" using l ra binade_upper [of 253 b] by simp
  moreover have "(2 :: real) powi (binade 253 b + 1) \<le> 2 powi (binade 253 a)"
    using l by (intro power_int_increasing) auto
  ultimately show False using assms by linarith
qed

text \<open>The value of \<open>fl32\<close> on a number whose binade is known: the rule of evaluation.\<close>

lemma fl32_binade:
  assumes "- 126 \<le> e" and "e \<le> 127" and "2 powi e \<le> \<bar>x\<bar>" and "\<bar>x\<bar> < 2 powi (e + 1)"
  shows "fl32 x = of_int (round_even (x / 2 powi (e - 23))) * 2 powi (e - 23)"
  using binade_eq [OF assms] by (simp add: fl32_def Let_def)

lemma fl32_0: "fl32 0 = 0"
  by (simp add: fl32_def round_even_def)

text \<open>Above the subnormal range the relative error of rounding is at most \<open>1 / 2 ^ 24\<close>.\<close>

lemma fl32_error:
  assumes "2 powi (- 126) \<le> x"
  shows "\<bar>fl32 x - x\<bar> \<le> x / 2 ^ 24"
proof -
  have "(0 :: real) < 2 powi (- 126)" by simp
  with assms have xpos: "0 < x" by linarith
  let ?e = "binade 253 \<bar>x\<bar>"
  let ?u = "(2 :: real) powi (?e - 23)"
  have upos: "0 < ?u" by simp
  have le: "2 powi ?e \<le> x"
  proof (cases "?e = - 126")
    case True
    then show ?thesis using assms by simp
  next
    case False
    then show ?thesis using binade_lower [of 253 "\<bar>x\<bar>"] xpos by simp
  qed
  have "\<bar>fl32 x - x\<bar> = \<bar>of_int (round_even (x / ?u)) - x / ?u\<bar> * ?u"
  proof -
    have "fl32 x - x = (of_int (round_even (x / ?u)) - x / ?u) * ?u"
      using upos by (simp add: fl32_def Let_def left_diff_distrib)
    then show ?thesis using upos by (simp add: abs_mult)
  qed
  also have "\<dots> \<le> (1 / 2) * ?u"
    using round_even_error [of "x / ?u"] upos by (intro mult_right_mono) auto
  also have "\<dots> = 2 powi ?e / 2 ^ 24"
    by (simp add: power_int_diff)
  also have "\<dots> \<le> x / 2 ^ 24"
    using le by (simp add: divide_right_mono)
  finally show ?thesis .
qed

text \<open>Rounding is monotone.\<close>

lemma fl32_mono:
  assumes "0 \<le> x" and "x \<le> y"
  shows "fl32 x \<le> fl32 y"
proof -
  let ?ex = "binade 253 \<bar>x\<bar>" and ?ey = "binade 253 \<bar>y\<bar>"
  let ?ux = "(2 :: real) powi (?ex - 23)" and ?uy = "(2 :: real) powi (?ey - 23)"
  have fx: "fl32 x = of_int (round_even (x / ?ux)) * ?ux"
    and fy: "fl32 y = of_int (round_even (y / ?uy)) * ?uy"
    by (simp_all add: fl32_def Let_def)
  have ux: "0 < ?ux" and uy: "0 < ?uy" by simp_all
  have le: "?ex \<le> ?ey" using assms by (intro binade_mono) simp
  show ?thesis
  proof (cases "?ex = ?ey")
    case True
    have "x / ?ux \<le> y / ?ux" using assms(2) ux by (simp add: divide_right_mono)
    then have "round_even (x / ?ux) \<le> round_even (y / ?ux)" by (rule round_even_mono)
    then have "real_of_int (round_even (x / ?ux)) * ?ux
                 \<le> real_of_int (round_even (y / ?ux)) * ?ux"
      using ux by (intro mult_right_mono) auto
    then show ?thesis using fx fy True by simp
  next
    case False
    then have lt: "?ex < ?ey" using le by simp
    have rx: "- 126 \<le> ?ex" and ry: "?ey \<le> 127"
      using binade_range [of 253 "\<bar>x\<bar>"] binade_range [of 253 "\<bar>y\<bar>"] by auto
    have "\<bar>x\<bar> < 2 powi (?ex + 1)" using lt ry binade_upper [of 253 "\<bar>x\<bar>"] by simp
    then have "x / ?ux \<le> 2 powi (?ex + 1) / ?ux" using ux by (simp add: divide_right_mono)
    also have "\<dots> = of_int (2 ^ 24)" by (simp add: power_int_diff power_int_add)
    finally have "round_even (x / ?ux) \<le> round_even (of_int (2 ^ 24))"
      by (rule round_even_mono)
    then have "round_even (x / ?ux) \<le> 2 ^ 24" by (simp only: round_even_of_int)
    then have "real_of_int (round_even (x / ?ux)) \<le> real_of_int (2 ^ 24)"
      by (simp only: of_int_le_iff)
    then have "real_of_int (round_even (x / ?ux)) \<le> 2 ^ 24" by simp
    then have "fl32 x \<le> 2 ^ 24 * ?ux" using fx ux by (simp add: mult_right_mono)
    also have "\<dots> = 2 powi (?ex + 1)" by (simp add: power_int_diff power_int_add)
    also have "\<dots> \<le> 2 powi ?ey" using lt by (intro power_int_increasing) auto
    finally have a: "fl32 x \<le> 2 powi ?ey" .
    have "2 powi ?ey \<le> \<bar>y\<bar>" using lt rx binade_lower [of 253 "\<bar>y\<bar>"] by linarith
    then have "2 powi ?ey \<le> y" using assms by simp
    then have "2 powi ?ey / ?uy \<le> y / ?uy" using uy by (simp add: divide_right_mono)
    moreover have "2 powi ?ey / ?uy = of_int (2 ^ 23)" by (simp add: power_int_diff)
    ultimately have "round_even (of_int (2 ^ 23)) \<le> round_even (y / ?uy)"
      by (intro round_even_mono) simp
    then have "2 ^ 23 \<le> round_even (y / ?uy)" by (simp only: round_even_of_int)
    then have "real_of_int (2 ^ 23) \<le> real_of_int (round_even (y / ?uy))"
      by (simp only: of_int_le_iff)
    then have "2 ^ 23 \<le> real_of_int (round_even (y / ?uy))" by simp
    then have "2 ^ 23 * ?uy \<le> fl32 y" using fy uy by (simp add: mult_right_mono)
    moreover have "2 ^ 23 * ?uy = 2 powi ?ey" by (simp add: power_int_diff)
    ultimately have "2 powi ?ey \<le> fl32 y" by simp
    with a show ?thesis by linarith
  qed
qed

text \<open>An unsigned integer below \<open>2 ^ 24\<close> is a float: its conversion is exact.\<close>

lemma fl32_of_nat:
  assumes "n < 2 ^ 24"
  shows "fl32 (real n) = real n"
proof -
  let ?e = "binade 253 (real n)"
  let ?u = "(2 :: real) powi (?e - 23)"
  have "?e \<le> 23"
  proof (rule ccontr)
    assume "\<not> ?e \<le> 23"
    then have g: "24 \<le> ?e" by simp
    then have "2 powi ?e \<le> real n" using binade_lower [of 253 "real n"] by simp
    moreover have "(2 :: real) powi 24 \<le> 2 powi ?e"
      using g by (intro power_int_increasing) auto
    moreover have "real n < real (2 ^ 24)" using assms by (simp only: of_nat_less_iff)
    ultimately show False by simp
  qed
  then have "0 \<le> 23 - ?e" by simp
  then obtain k where "23 - ?e = int k" by (rule nonneg_int_cases)
  then have k: "?e - 23 = - int k" by simp
  have u: "?u = 1 / 2 ^ k"
    by (simp only: k power_int_minus power_int_of_nat inverse_eq_divide)
  have f: "fl32 (real n) = of_int (round_even (real n / ?u)) * ?u"
    by (simp add: fl32_def Let_def)
  have "real n / ?u = of_int (int n * 2 ^ k)" unfolding u by simp
  then have "round_even (real n / ?u) = int n * 2 ^ k" by (simp only: round_even_of_int)
  then have "fl32 (real n) = of_int (int n * 2 ^ k) * ?u" using f by simp
  then show ?thesis unfolding u by simp
qed

section \<open>The speed table\<close>

text \<open>The float product \<^verbatim>\<open>kSecPerHour * 0.001f\<close>, the numerator of every entry.\<close>

lemma literal_0001: "fl32 0.001 = 8589935 / 8589934592"
  using fl32_binade [of "- 10" "0.001"] by (simp add: round_even_def)

lemma numerator: "fmul kSecPerHour (fl32 0.001) = 15099495 / 4194304"
proof -
  have "fmul kSecPerHour (fl32 0.001) = fl32 (3600 * (8589935 / 8589934592))"
    by (simp only: fmul_def kSecPerHour_def literal_0001)
  also have "\<dots> = 15099495 / 4194304"
    using fl32_binade [of 1 "3600 * (8589935 / 8589934592)"] by (simp add: round_even_def)
  finally show ?thesis .
qed

text \<open>What the loop leaves in the array: the entries from \<open>s\<close> to 254 are written.\<close>

lemma fill_speedfactor_entry:
  "fill_speedfactor s tbl i =
     (if s \<le> i \<and> i < 255
      then Some (fdiv (fmul kSecPerHour (fl32 0.001)) (fl32 (real i)))
      else tbl i)"
proof (induction s tbl rule: fill_speedfactor.induct)
  case (1 s tbl)
  let ?v = "\<lambda>j. fdiv (fmul kSecPerHour (fl32 0.001)) (fl32 (real j))"
  show ?case
  proof (cases "s < 255")
    case True
    have "fill_speedfactor s tbl i = fill_speedfactor (s + 1) (tbl(s \<mapsto> ?v s)) i"
      using True by (subst fill_speedfactor.simps) simp
    also have "\<dots> = (if s + 1 \<le> i \<and> i < 255 then Some (?v i) else (tbl(s \<mapsto> ?v s)) i)"
      using True by (rule "1.IH")
    finally show ?thesis using True by auto
  next
    case False
    then have "fill_speedfactor s tbl i = tbl i"
      by (subst fill_speedfactor.simps) simp
    with False show ?thesis by auto
  qed
qed

lemma speedfactor_entries:
  "speedfactor CreateAutoCost i =
     (if i = 0 then Some 3600
      else if i < 255 then Some (fl32 ((15099495 / 4194304) / real i))
      else None)"
proof -
  have c: "i < 255 \<Longrightarrow> fl32 (real i) = real i"
    by (rule fl32_of_nat) simp
  have "speedfactor CreateAutoCost i =
          (if 1 \<le> i \<and> i < 255 then Some (fdiv (15099495 / 4194304) (fl32 (real i)))
           else (Map.empty(0 \<mapsto> kSecPerHour)) i)"
    by (simp only: CreateAutoCost_def AutoCost_ctor_def AutoCost.simps
        fill_speedfactor_entry numerator)
  then show ?thesis using c by (simp add: fdiv_def kSecPerHour_def)
qed

text \<open>The arithmetic of the error bounds, on plain reals.\<close>

lemma scale_error:
  fixes l t q d :: real
  assumes "0 \<le> l" and "\<bar>t - q\<bar> \<le> d"
  shows "\<bar>l * t - l * q\<bar> \<le> l * d"
proof -
  have "l * t - l * q = l * (t - q)" by (simp add: right_diff_distrib)
  then have "\<bar>l * t - l * q\<bar> = l * \<bar>t - q\<bar>" using assms(1) by (simp add: abs_mult)
  also have "\<dots> \<le> l * d" using assms(2,1) by (rule mult_left_mono)
  finally show ?thesis .
qed

lemma rounded_apart:
  fixes a b fa fb :: real
  assumes "\<bar>fa - a\<bar> \<le> a / 2 ^ 24" and "\<bar>fb - b\<bar> \<le> b / 2 ^ 24"
    and "a \<le> b * (253 / 254)" and "0 < b"
  shows "fa < fb"
  using assms unfolding abs_le_iff by simp

lemma two_roundings:
  fixes c p a b :: real
  assumes "\<bar>c - p\<bar> \<le> p / 2 ^ 24" and "\<bar>p - a\<bar> \<le> a / 2 ^ 24"
    and "a = b * (150994950 / 150994944)" and "0 \<le> b"
  shows "\<bar>c - b\<bar> \<le> b / 2 ^ 22"
  using assms unfolding abs_le_iff by simp

lemma rounded_above:
  fixes c p h :: real
  assumes "\<bar>c - p\<bar> \<le> p / 2 ^ 24" and "h \<le> p"
  shows "(1 - 1 / 2 ^ 24) * h \<le> c"
  using assms unfolding abs_le_iff by simp

text \<open>
  Every entry from 1 to 254 is the rounded quotient of \<open>15099495 / 4194304\<close> by its
  index, within the rounding error of the exact quotient.
\<close>

lemma entry_error:
  assumes "1 \<le> i" and "i \<le> 254"
  shows "1 / 128 \<le> (15099495 / 4194304) / real i"
    and "\<bar>fl32 ((15099495 / 4194304) / real i) - (15099495 / 4194304) / real i\<bar>
           \<le> ((15099495 / 4194304) / real i) / 2 ^ 24"
proof -
  have i: "0 < real i" "real i \<le> 254" using assms by auto
  have "(15099495 / 4194304 :: real) / 254 \<le> (15099495 / 4194304) / real i"
    using i by (intro divide_left_mono) auto
  then show a: "1 / 128 \<le> (15099495 / 4194304) / real i" by simp
  have "(2 :: real) powi (- 126) \<le> 1 / 128" by (simp add: power_int_minus)
  with a have "2 powi (- 126) \<le> (15099495 / 4194304) / real i" by linarith
  then show "\<bar>fl32 ((15099495 / 4194304) / real i) - (15099495 / 4194304) / real i\<bar>
           \<le> ((15099495 / 4194304) / real i) / 2 ^ 24"
    by (rule fl32_error)
qed

lemma entry_lower:
  assumes "1 \<le> i" and "i \<le> 254"
  shows "1 / 256 \<le> fl32 ((15099495 / 4194304) / real i)"
  using entry_error [OF assms] by (simp add: abs_le_iff)

text \<open>Two neighbouring quotients are further apart than the rounding errors.\<close>

lemma entries_decrease:
  assumes "1 \<le> n" and "n \<le> 253"
  shows "fl32 ((15099495 / 4194304) / real (n + 1)) < fl32 ((15099495 / 4194304) / real n)"
proof -
  let ?a = "(15099495 / 4194304 :: real) / real (n + 1)"
  let ?b = "(15099495 / 4194304 :: real) / real n"
  have n: "0 < real n" "real n \<le> 253" using assms by auto
  have ea: "\<bar>fl32 ?a - ?a\<bar> \<le> ?a / 2 ^ 24" and la: "1 / 128 \<le> ?a"
    using entry_error [of "n + 1"] assms by auto
  have eb: "\<bar>fl32 ?b - ?b\<bar> \<le> ?b / 2 ^ 24" and lb: "1 / 128 \<le> ?b"
    using entry_error [of n] assms by auto
  have "?a \<le> ?b * (253 / 254)"
    using n by (simp add: field_simps)
  moreover have "0 < ?b" using lb by linarith
  ultimately show ?thesis using ea eb by (intro rounded_apart [of "fl32 ?a" ?a "fl32 ?b" ?b])
qed

text \<open>The entries used in the examples.\<close>

lemma entry_1: "speedfactor CreateAutoCost 1 = Some (15099495 / 4194304)"
  using fl32_binade [of 1 "15099495 / 4194304"]
  by (simp add: speedfactor_entries round_even_def)

lemma entry_2: "speedfactor CreateAutoCost 2 = Some (15099495 / 8388608)"
  using fl32_binade [of 0 "15099495 / 4194304 / 2"]
  by (simp add: speedfactor_entries round_even_def)

lemma entry_60: "speedfactor CreateAutoCost 60 = Some (1006633 / 16777216)"
  using fl32_binade [of "- 5" "15099495 / 4194304 / 60"]
  by (simp add: speedfactor_entries round_even_def)

lemma entry_120_value: "fl32 ((15099495 / 4194304) / 120) = 1006633 / 33554432"
  using fl32_binade [of "- 6" "15099495 / 4194304 / 120"]
  by (simp add: round_even_def)

lemma entry_120: "speedfactor CreateAutoCost 120 = Some (1006633 / 33554432)"
  using entry_120_value by (simp add: speedfactor_entries)

text \<open>Entry 120 is the least of the entries 1 to 120.\<close>

lemma entry_120_least:
  assumes "1 \<le> i" and "i \<le> 120"
  shows "1006633 / 33554432 \<le> fl32 ((15099495 / 4194304) / real i)"
proof -
  have i: "0 < real i" "real i \<le> 120" using assms by auto
  have "(15099495 / 4194304 :: real) / 120 \<le> (15099495 / 4194304) / real i"
    using i by (intro divide_left_mono) auto
  then have "fl32 ((15099495 / 4194304) / 120) \<le> fl32 ((15099495 / 4194304) / real i)"
    by (intro fl32_mono) auto
  then show ?thesis by (simp only: entry_120_value)
qed

section \<open>The cost of an edge on the constructed object\<close>

lemma Get_written:
  assumes "unat (speed edge) = n" and "n \<noteq> 255"
  shows "Get CreateAutoCost edge =
           Some (fmul (fl32 (length_m edge))
                   (if n = 0 then 3600 else fl32 ((15099495 / 4194304) / real n)))"
proof -
  have "unat (speed edge) < 2 ^ LENGTH(8)" by (rule unsigned_less)
  then have "n < 255" using assms by simp
  then show ?thesis using assms(1) by (simp add: Get_def speedfactor_entries)
qed

text \<open>
  The product of a length that is zero or not tiny with a factor of the size of the
  table's entries is rounded with a relative error of at most \<open>1 / 2 ^ 24\<close>.
\<close>

lemma product_error:
  assumes "l = 0 \<or> 1 / 2 ^ 100 \<le> l" and "1 / 256 \<le> f"
  shows "\<bar>fl32 (l * f) - l * f\<bar> \<le> l * f / 2 ^ 24"
proof (cases "l = 0")
  case True
  then show ?thesis by (simp add: fl32_0)
next
  case False
  then have l: "1 / 2 ^ 100 \<le> l" using assms(1) by simp
  have "(1 / 2 ^ 100) * (1 / 256) \<le> l * f"
    using l assms(2) by (intro mult_mono) auto
  moreover have "(2 :: real) powi (- 126) \<le> (1 / 2 ^ 100) * (1 / 256)"
    by (simp add: power_int_minus)
  ultimately have "2 powi (- 126) \<le> l * f" by linarith
  then show ?thesis by (rule fl32_error)
qed

lemma cost_error:
  assumes "1 \<le> n" and "n \<le> 254" and "l = 0 \<or> 1 / 2 ^ 100 \<le> l"
  shows "\<bar>fl32 (l * fl32 ((15099495 / 4194304) / real n)) - l * ((3600 * 0.001) / real n)\<bar>
           \<le> l * ((3600 * 0.001) / real n) / 2 ^ 22"
proof -
  let ?q = "(15099495 / 4194304 :: real) / real n"
  let ?t = "fl32 ?q"
  have n: "0 < real n" using assms(1) by simp
  have l: "0 \<le> l" using assms(3) by (auto intro: order_trans [of 0 "1 / 2 ^ 100"])
  have q: "\<bar>?t - ?q\<bar> \<le> ?q / 2 ^ 24" using assms(1,2) by (rule entry_error(2))
  have t: "1 / 256 \<le> ?t" using assms(1,2) by (rule entry_lower)
  have p: "\<bar>fl32 (l * ?t) - l * ?t\<bar> \<le> l * ?t / 2 ^ 24"
    using assms(3) t by (rule product_error)
  have "\<bar>l * ?t - l * ?q\<bar> \<le> l * (?q / 2 ^ 24)" using l q by (rule scale_error)
  then have a: "\<bar>l * ?t - l * ?q\<bar> \<le> l * ?q / 2 ^ 24" by simp
  have b: "l * ?q = l * ((3600 * 0.001) / real n) * (150994950 / 150994944)"
    using n by simp
  have c: "0 \<le> l * ((3600 * 0.001) / real n)" using l n by simp
  show ?thesis using p a b c by (rule two_roundings)
qed

text \<open>An edge of a speed from 1 to 120 costs at least what the factor of entry 120 gives.\<close>

lemma edge_cost_bound:
  assumes "1 \<le> unat (speed e)" and "unat (speed e) \<le> 120"
    and "fl32 (length_m e) = length_m e"
    and "length_m e = 0 \<or> 1 / 2 ^ 100 \<le> length_m e"
  shows "\<exists>c. Get CreateAutoCost e = Some c \<and>
             (1 - 1 / 2 ^ 24) * ((1006633 / 33554432) * length_m e) \<le> c \<and>
             fmul (1006633 / 33554432) (length_m e) \<le> c"
proof -
  let ?n = "unat (speed e)" and ?l = "length_m e"
  let ?t = "fl32 ((15099495 / 4194304) / real ?n)"
  have n: "1 \<le> ?n" "?n \<le> 254" using assms(1,2) by auto
  have l: "0 \<le> ?l" using assms(4) by (auto intro: order_trans [of 0 "1 / 2 ^ 100"])
  have g: "Get CreateAutoCost e = Some (fl32 (?l * ?t))"
    using Get_written [of e ?n] n assms(3) by (simp add: fmul_def)
  have h: "1006633 / 33554432 \<le> ?t" using assms(1,2) by (rule entry_120_least)
  have t: "1 / 256 \<le> ?t" using n by (rule entry_lower)
  have m: "(1006633 / 33554432) * ?l \<le> ?l * ?t"
    using mult_left_mono [OF h l] by (simp add: mult.commute)
  have "\<bar>fl32 (?l * ?t) - ?l * ?t\<bar> \<le> ?l * ?t / 2 ^ 24"
    using assms(4) t by (rule product_error)
  then have a: "(1 - 1 / 2 ^ 24) * ((1006633 / 33554432) * ?l) \<le> fl32 (?l * ?t)"
    using m by (rule rounded_above)
  have "fl32 ((1006633 / 33554432) * ?l) \<le> fl32 (?l * ?t)"
    using m l by (intro fl32_mono) auto
  then have b: "fmul (1006633 / 33554432) ?l \<le> fl32 (?l * ?t)" by (simp only: fmul_def)
  show ?thesis using g a b by blast
qed

text \<open>Along a path the bound of each edge adds up.\<close>

lemma path_cost_bound:
  assumes "\<forall>e \<in> set path. 1 \<le> unat (speed e) \<and> unat (speed e) \<le> 120 \<and>
             fl32 (length_m e) = length_m e \<and>
             (length_m e = 0 \<or> 1 / 2 ^ 100 \<le> length_m e)"
  shows "\<exists>costs. map (Get CreateAutoCost) path = map Some costs \<and>
           (1 - 1 / 2 ^ 24) * ((1006633 / 33554432) * sum_list (map length_m path))
             \<le> sum_list costs \<and>
           list_all2 (\<lambda>e c. fmul (1006633 / 33554432) (length_m e) \<le> c) path costs"
  using assms
proof (induction path)
  case Nil
  show ?case by simp
next
  case (Cons e path)
  from Cons.prems obtain c
    where c: "Get CreateAutoCost e = Some c"
      "(1 - 1 / 2 ^ 24) * ((1006633 / 33554432) * length_m e) \<le> c"
      "fmul (1006633 / 33554432) (length_m e) \<le> c"
    using edge_cost_bound [of e] by auto
  from Cons obtain costs
    where cs: "map (Get CreateAutoCost) path = map Some costs"
      "(1 - 1 / 2 ^ 24) * ((1006633 / 33554432) * sum_list (map length_m path))
         \<le> sum_list costs"
      "list_all2 (\<lambda>e c. fmul (1006633 / 33554432) (length_m e) \<le> c) path costs"
    by auto
  have "map (Get CreateAutoCost) (e # path) = map Some (c # costs)"
    using c(1) cs(1) by simp
  moreover have "(1 - 1 / 2 ^ 24) * ((1006633 / 33554432) * sum_list (map length_m (e # path)))
                   \<le> sum_list (c # costs)"
    using c(2) cs(2) by (simp add: distrib_left)
  moreover have "list_all2 (\<lambda>e c. fmul (1006633 / 33554432) (length_m e) \<le> c)
                   (e # path) (c # costs)"
    using c(3) cs(3) by simp
  ultimately show ?case by blast
qed

text \<open>The costs used in the examples.\<close>

lemma Get_1000_60: "Get CreateAutoCost sample_edge = Some (15728641 / 262144)"
proof -
  have a: "fl32 (real 1000) = real 1000" by (rule fl32_of_nat) simp
  have "fl32 (1000 * (1006633 / 16777216)) = 15728641 / 262144"
    using fl32_binade [of 5 "1000 * (1006633 / 16777216)"] by (simp add: round_even_def)
  then show ?thesis using a entry_60 by (simp add: Get_def fmul_def sample_edge_def)
qed

lemma Get_17_120:
  "Get CreateAutoCost (sample_edge\<lparr>length_m := 17, speed := 120\<rparr>) = Some (2139095 / 4194304)"
proof -
  have a: "fl32 (real 17) = real 17" by (rule fl32_of_nat) simp
  have "fl32 (17 * (1006633 / 33554432)) = 2139095 / 4194304"
    using fl32_binade [of "- 1" "17 * (1006633 / 33554432)"] by (simp add: round_even_def)
  then show ?thesis using a entry_120 by (simp add: Get_def fmul_def sample_edge_def)
qed

lemma Get_1_120:
  "Get CreateAutoCost (sample_edge\<lparr>length_m := 1, speed := 120\<rparr>) = Some (1006633 / 33554432)"
proof -
  have a: "fl32 (real 1) = real 1" by (rule fl32_of_nat) simp
  have "fl32 (1006633 / 33554432) = 1006633 / 33554432"
    using fl32_binade [of "- 6" "1006633 / 33554432"] by (simp add: round_even_def)
  then show ?thesis using a entry_120 by (simp add: Get_def fmul_def sample_edge_def)
qed

lemma Get_500_120:
  "Get CreateAutoCost (sample_edge\<lparr>length_m := 500, speed := 120\<rparr>) = Some (15728641 / 1048576)"
proof -
  have a: "fl32 (real 500) = real 500" by (rule fl32_of_nat) simp
  have "fl32 (500 * (1006633 / 33554432)) = 15728641 / 1048576"
    using fl32_binade [of 3 "500 * (1006633 / 33554432)"] by (simp add: round_even_def)
  then show ?thesis using a entry_120 by (simp add: Get_def fmul_def sample_edge_def)
qed

lemma Get_1000_0:
  "Get CreateAutoCost (sample_edge\<lparr>speed := 0\<rparr>) = Some 3600000"
proof -
  have a: "fl32 (real 1000) = real 1000" by (rule fl32_of_nat) simp
  have b: "fl32 (real 3600000) = real 3600000" by (rule fl32_of_nat) simp
  show ?thesis using a b by (simp add: Get_def fmul_def sample_edge_def speedfactor_entries)
qed

section \<open>The access check\<close>

text \<open>The test of the restriction mask reads bit \<open>localedgeidx\<close> of the mask.\<close>

lemma restricted_iff_bit:
  "(restriction AND push_bit n 1 = (0 :: 32 word)) = (\<not> bit restriction n)"
  by (simp add: and_exp_eq_0_iff_not_bit)

lemma Allowed_bit:
  "Allowed kAutoAccess edge restriction uturn dist2dest =
     (if bit restriction (unat (localedgeidx edge)) then False
      else if trans_up edge then
        (if level (endnode edge) = 0 then dist2dest > 50000 else dist2dest > 10000)
      else if trans_down edge then
        (if level (endnode edge) = 1 then dist2dest < 50000 else dist2dest < 10000)
      else if shortcut edge \<and> dist2dest < 10000 then False
      else if uturn \<or> (not_thru edge \<and> dist2dest > 5000) then False
      else forwardaccess edge AND kAutoAccess \<noteq> 0)"
  unfolding Allowed_def restricted_iff_bit by simp

subsection \<open>U-turns\<close>

text \<open>
  C1 as stated fails: a transition-up edge ending at level 0, 60000 m from the
  destination and with no restriction, is allowed although \<open>uturn\<close> is true. The branch
  of \<^verbatim>\<open>trans_up\<close> returns before \<open>uturn\<close> is read.
\<close>

theorem uturn_on_transition_allowed:
  "Allowed 1 (sample_edge\<lparr>trans_up := True\<rparr>) 0 True 60000"
  by (simp add: Allowed_def sample_edge_def)

text \<open>
  C1, amended: with \<open>uturn\<close> true, \<open>Allowed\<close> returns false for every edge that is not a
  hierarchy transition (neither \<open>trans_up\<close> nor \<open>trans_down\<close>), whatever the restriction
  mask, the distance and the other fields, and for every edge whose restriction bit is
  set. For a transition edge the flag is not read: the result is the same with \<open>uturn\<close>
  true and false.
\<close>

theorem Allowed_uturn:
  "(\<not> trans_up edge \<and> \<not> trans_down edge \<longrightarrow>
      \<not> Allowed kAutoAccess edge restriction True dist2dest) \<and>
   (bit restriction (unat (localedgeidx edge)) \<longrightarrow>
      \<not> Allowed kAutoAccess edge restriction True dist2dest) \<and>
   (trans_up edge \<or> trans_down edge \<longrightarrow>
      Allowed kAutoAccess edge restriction True dist2dest =
        Allowed kAutoAccess edge restriction False dist2dest)"
  by (simp add: Allowed_bit)

theorem Allowed_uturn_witness:
  "\<not> trans_up sample_edge \<and> \<not> trans_down sample_edge \<and>
   \<not> Allowed 1 sample_edge 0 True 20000 \<and>
   bit (8 :: 32 word) (unat (localedgeidx (sample_edge\<lparr>trans_down := True\<rparr>))) \<and>
   (trans_up (sample_edge\<lparr>trans_down := True\<rparr>) \<or> trans_down (sample_edge\<lparr>trans_down := True\<rparr>)) \<and>
   \<not> Allowed 1 (sample_edge\<lparr>trans_down := True\<rparr>) 8 True 20000 \<and>
   Allowed 1 (sample_edge\<lparr>trans_down := True\<rparr>) 8 True 20000 =
     Allowed 1 (sample_edge\<lparr>trans_down := True\<rparr>) 8 False 20000"
  using Allowed_uturn [of sample_edge 1 0 20000]
        Allowed_uturn [of "sample_edge\<lparr>trans_down := True\<rparr>" 1 8 20000]
  by (auto simp add: sample_edge_def)

subsection \<open>Turn restrictions\<close>

text \<open>
  C3: if bit \<open>localedgeidx edge\<close> of the restriction mask is set, \<open>Allowed\<close> returns
  false, for every edge, access bit, U-turn flag and distance: the test comes first.
\<close>

theorem Allowed_restricted:
  "bit restriction (unat (localedgeidx edge)) \<Longrightarrow>
   \<not> Allowed kAutoAccess edge restriction uturn dist2dest"
  by (simp add: Allowed_bit)

theorem Allowed_restricted_witness:
  "bit (8 :: 32 word) (unat (localedgeidx sample_edge)) \<and>
   forwardaccess sample_edge AND 1 \<noteq> 0 \<and>
   \<not> Allowed 1 sample_edge 8 False 20000"
  using Allowed_restricted [of 8 sample_edge 1 False 20000]
  by (simp add: sample_edge_def)

subsection \<open>Hierarchy transitions\<close>

text \<open>
  C4: for a transition-up edge whose restriction bit is not set, \<open>Allowed\<close> is true
  exactly when the distance to the destination exceeds 50000 if the end node is on
  level 0, and exceeds 10000 on any other level.
\<close>

theorem Allowed_trans_up:
  "trans_up edge \<Longrightarrow> \<not> bit restriction (unat (localedgeidx edge)) \<Longrightarrow>
   Allowed kAutoAccess edge restriction uturn dist2dest =
     (if level (endnode edge) = 0 then dist2dest > 50000 else dist2dest > 10000)"
  by (simp add: Allowed_bit)

theorem Allowed_trans_up_witness:
  "trans_up (sample_edge\<lparr>trans_up := True\<rparr>) \<and>
   \<not> bit (0 :: 32 word) (unat (localedgeidx (sample_edge\<lparr>trans_up := True\<rparr>))) \<and>
   level (endnode (sample_edge\<lparr>trans_up := True\<rparr>)) = 0 \<and>
   Allowed 1 (sample_edge\<lparr>trans_up := True\<rparr>) 0 False 60000 \<and>
   \<not> Allowed 1 (sample_edge\<lparr>trans_up := True\<rparr>) 0 False 40000"
  using Allowed_trans_up [of "sample_edge\<lparr>trans_up := True\<rparr>" 0 1 False 60000]
        Allowed_trans_up [of "sample_edge\<lparr>trans_up := True\<rparr>" 0 1 False 40000]
  by (simp add: sample_edge_def)

text \<open>
  C10: a transition edge (up or down) whose restriction bit is not set and whose
  distance passes the threshold of its branch is allowed whatever its forward access
  mask \<open>a\<close> is, also when \<open>a\<close> lacks the automobile bit. An edge with both flags set
  takes the branch of \<^verbatim>\<open>trans_up\<close>, the first in the code.
\<close>

theorem Allowed_transition_any_access:
  assumes "trans_up edge \<or> trans_down edge"
    and "\<not> bit restriction (unat (localedgeidx edge))"
    and "if trans_up edge
         then (if level (endnode edge) = 0 then dist2dest > 50000 else dist2dest > 10000)
         else (if level (endnode edge) = 1 then dist2dest < 50000 else dist2dest < 10000)"
  shows "Allowed kAutoAccess (edge\<lparr>forwardaccess := a\<rparr>) restriction uturn dist2dest"
  using assms by (auto simp add: Allowed_bit split: if_splits)

theorem Allowed_transition_any_access_witness:
  "(trans_up (sample_edge\<lparr>trans_down := True\<rparr>) \<or> trans_down (sample_edge\<lparr>trans_down := True\<rparr>)) \<and>
   \<not> bit (0 :: 32 word) (unat (localedgeidx (sample_edge\<lparr>trans_down := True\<rparr>))) \<and>
   level (endnode (sample_edge\<lparr>trans_down := True\<rparr>)) \<noteq> 1 \<and> (5000 :: real) < 10000 \<and>
   (0 :: 32 word) AND 1 = 0 \<and>
   Allowed 1 (sample_edge\<lparr>trans_down := True, forwardaccess := 0\<rparr>) 0 False 5000 \<and>
   Allowed 1 (sample_edge\<lparr>trans_up := True, forwardaccess := 0\<rparr>) 0 False 60000"
  using Allowed_transition_any_access [of "sample_edge\<lparr>trans_down := True\<rparr>" 0 5000 1 0 False]
        Allowed_transition_any_access [of "sample_edge\<lparr>trans_up := True\<rparr>" 0 60000 1 0 False]
  by (simp add: sample_edge_def)

subsection \<open>Shortcuts\<close>

text \<open>
  C5: for a shortcut edge that is no transition and whose restriction bit is not set,
  \<open>Allowed\<close> is false when the distance is below 10000. From 10000 on the shortcut flag
  does not decide: the result is that of the same edge without the flag, and it is
  true exactly when \<open>uturn\<close> is false, the not-thru rule does not fire and the forward
  access mask has the automobile bit.
\<close>

theorem Allowed_shortcut:
  assumes "shortcut edge" and "\<not> trans_up edge" and "\<not> trans_down edge"
    and "\<not> bit restriction (unat (localedgeidx edge))"
  shows "(dist2dest < 10000 \<longrightarrow> \<not> Allowed kAutoAccess edge restriction uturn dist2dest) \<and>
         (dist2dest \<ge> 10000 \<longrightarrow>
            Allowed kAutoAccess edge restriction uturn dist2dest =
              Allowed kAutoAccess (edge\<lparr>shortcut := False\<rparr>) restriction uturn dist2dest \<and>
            Allowed kAutoAccess edge restriction uturn dist2dest =
              (\<not> uturn \<and> \<not> (not_thru edge \<and> dist2dest > 5000) \<and>
               forwardaccess edge AND kAutoAccess \<noteq> 0))"
  using assms by (auto simp add: Allowed_bit)

theorem Allowed_shortcut_witness:
  "shortcut (sample_edge\<lparr>shortcut := True\<rparr>) \<and>
   \<not> trans_up (sample_edge\<lparr>shortcut := True\<rparr>) \<and>
   \<not> trans_down (sample_edge\<lparr>shortcut := True\<rparr>) \<and>
   \<not> bit (0 :: 32 word) (unat (localedgeidx (sample_edge\<lparr>shortcut := True\<rparr>))) \<and>
   (5000 :: real) < 10000 \<and> (20000 :: real) \<ge> 10000 \<and>
   \<not> Allowed 1 (sample_edge\<lparr>shortcut := True\<rparr>) 0 False 5000 \<and>
   Allowed 1 (sample_edge\<lparr>shortcut := True\<rparr>) 0 False 20000"
  using Allowed_shortcut [of "sample_edge\<lparr>shortcut := True\<rparr>" 0 5000 1 False]
        Allowed_shortcut [of "sample_edge\<lparr>shortcut := True\<rparr>" 0 20000 1 False]
  by (auto simp add: sample_edge_def)


section \<open>The cost of an edge\<close>

text \<open>
  C2: the claim that every speed in 0..255 reads a populated entry does not hold of
  the code. The constructor writes entry 0 and, in the loop bounded by \<open>s < 255\<close>, the
  entries 1 to 254; entry 255 is never written, and \<open>Get\<close> on an edge of speed 255 reads
  it.
\<close>

theorem Get_speed_255_unwritten:
  "speedfactor CreateAutoCost 255 = None \<and>
   unat (speed (sample_edge\<lparr>speed := 255\<rparr>)) = 255 \<and>
   Get CreateAutoCost (sample_edge\<lparr>speed := 255\<rparr>) = None"
  by (simp add: Get_def speedfactor_entries sample_edge_def)

text \<open>
  C6 as stated fails, because every operation rounds to binary32. The edge of 1000 m
  at speed 60 costs \<open>15728641 / 262144\<close>, which is neither
  \<open>1000 * ((3600 * 0.001) / 60) = 60\<close> nor 1000 times the entry 60 of the table, and the
  cost is not linear in the length: at speed 120, 17 m do not cost 17 times what 1 m
  costs.
\<close>

theorem Get_not_exact_nor_linear:
  "Get CreateAutoCost sample_edge = Some (15728641 / 262144) \<and>
   (15728641 / 262144 :: real) \<noteq> 1000 * ((3600 * 0.001) / 60) \<and>
   speedfactor CreateAutoCost 60 = Some (1006633 / 16777216) \<and>
   (15728641 / 262144 :: real) \<noteq> 1000 * (1006633 / 16777216) \<and>
   Get CreateAutoCost (sample_edge\<lparr>length_m := 1, speed := 120\<rparr>) =
     Some (1006633 / 33554432) \<and>
   Get CreateAutoCost (sample_edge\<lparr>length_m := 17, speed := 120\<rparr>) =
     Some (2139095 / 4194304) \<and>
   (2139095 / 4194304 :: real) \<noteq> 17 * (1006633 / 33554432)"
  using Get_1000_60 Get_1_120 Get_17_120 entry_60 by simp

text \<open>
  C6, amended: on the constructed object, the cost of an edge of speed \<open>s\<close> in 1..254
  is the float product of its length with the table's entry, which is the float
  quotient by \<open>s\<close> of the float product \<open>3600 * 0.001f\<close>; at speed 0 it is the float
  product of the length with 3600. It is linear in the length up to one rounding: for
  a length that is a float, zero or from \<open>1 / 2 ^ 100\<close> to \<open>2 ^ 100\<close>, the cost differs
  from the length times the entry by at most that product over \<open>2 ^ 24\<close>, and, for
  \<open>s\<close> in 1..254, from \<open>length * ((3600 * 0.001) / s)\<close> by at most that number over
  \<open>2 ^ 22\<close>.
\<close>

theorem Get_cost:
  "(1 \<le> unat (speed edge) \<and> unat (speed edge) \<le> 254 \<and> \<bar>length_m edge\<bar> \<le> 2 ^ 100 \<longrightarrow>
      Get CreateAutoCost edge =
        Some (fmul (fl32 (length_m edge))
                (fdiv (fmul 3600 (fl32 0.001)) (real (unat (speed edge)))))) \<and>
   (speed edge = 0 \<and> \<bar>length_m edge\<bar> \<le> 2 ^ 100 \<longrightarrow>
      Get CreateAutoCost edge = Some (fmul (fl32 (length_m edge)) 3600)) \<and>
   (unat (speed edge) \<le> 254 \<and> fl32 (length_m edge) = length_m edge \<and>
    (length_m edge = 0 \<or> 1 / 2 ^ 100 \<le> length_m edge) \<and> length_m edge \<le> 2 ^ 100 \<longrightarrow>
      (\<exists>f c. speedfactor CreateAutoCost (unat (speed edge)) = Some f \<and>
             Get CreateAutoCost edge = Some c \<and>
             \<bar>c - length_m edge * f\<bar> \<le> length_m edge * f / 2 ^ 24)) \<and>
   (1 \<le> unat (speed edge) \<and> unat (speed edge) \<le> 254 \<and>
    fl32 (length_m edge) = length_m edge \<and>
    (length_m edge = 0 \<or> 1 / 2 ^ 100 \<le> length_m edge) \<and> length_m edge \<le> 2 ^ 100 \<longrightarrow>
      (\<exists>c. Get CreateAutoCost edge = Some c \<and>
           \<bar>c - length_m edge * ((3600 * 0.001) / real (unat (speed edge)))\<bar>
             \<le> length_m edge * ((3600 * 0.001) / real (unat (speed edge))) / 2 ^ 22))"
proof -
  let ?n = "unat (speed edge)" and ?l = "length_m edge"
  let ?t = "fl32 ((15099495 / 4194304) / real ?n)"
  have w: "?n \<noteq> 255 \<Longrightarrow>
             Get CreateAutoCost edge = Some (fmul (fl32 ?l) (if ?n = 0 then 3600 else ?t))"
    by (rule Get_written [OF refl])
  have q: "fdiv (fmul 3600 (fl32 0.001)) (real ?n) = ?t"
    by (simp only: fdiv_def numerator [unfolded kSecPerHour_def])
  have a: "Get CreateAutoCost edge = Some (fmul (fl32 ?l) (fdiv (fmul 3600 (fl32 0.001)) (real ?n)))"
    if "1 \<le> ?n \<and> ?n \<le> 254 \<and> \<bar>?l\<bar> \<le> 2 ^ 100"
  proof -
    have "Get CreateAutoCost edge = Some (fmul (fl32 ?l) ?t)" using w that by auto
    then show ?thesis by (simp only: q)
  qed
  have b: "Get CreateAutoCost edge = Some (fmul (fl32 ?l) 3600)"
    if "speed edge = 0 \<and> \<bar>?l\<bar> \<le> 2 ^ 100"
    using w that by simp
  have c: "\<exists>f c. speedfactor CreateAutoCost ?n = Some f \<and> Get CreateAutoCost edge = Some c \<and>
             \<bar>c - ?l * f\<bar> \<le> ?l * f / 2 ^ 24"
    if h: "?n \<le> 254 \<and> fl32 ?l = ?l \<and> (?l = 0 \<or> 1 / 2 ^ 100 \<le> ?l) \<and> ?l \<le> 2 ^ 100"
  proof -
    let ?f = "if ?n = 0 then 3600 else ?t"
    have f: "speedfactor CreateAutoCost ?n = Some ?f"
      using h by (simp add: speedfactor_entries)
    have "1 / 256 \<le> ?f"
    proof (cases "?n = 0")
      case True
      then show ?thesis by simp
    next
      case False
      then have "1 / 256 \<le> ?t" using h by (intro entry_lower) auto
      with False show ?thesis by simp
    qed
    then have "\<bar>fl32 (?l * ?f) - ?l * ?f\<bar> \<le> ?l * ?f / 2 ^ 24"
      using h by (intro product_error) auto
    moreover have "Get CreateAutoCost edge = Some (fl32 (?l * ?f))"
      using w h by (simp add: fmul_def)
    ultimately show ?thesis using f by blast
  qed
  have d: "\<exists>c. Get CreateAutoCost edge = Some c \<and>
             \<bar>c - ?l * ((3600 * 0.001) / real ?n)\<bar> \<le> ?l * ((3600 * 0.001) / real ?n) / 2 ^ 22"
    if h: "1 \<le> ?n \<and> ?n \<le> 254 \<and> fl32 ?l = ?l \<and> (?l = 0 \<or> 1 / 2 ^ 100 \<le> ?l) \<and>
           ?l \<le> 2 ^ 100"
  proof -
    have "\<bar>fl32 (?l * ?t) - ?l * ((3600 * 0.001) / real ?n)\<bar>
            \<le> ?l * ((3600 * 0.001) / real ?n) / 2 ^ 22"
      using h by (intro cost_error) auto
    moreover have "Get CreateAutoCost edge = Some (fl32 (?l * ?t))"
      using w h by (auto simp add: fmul_def)
    ultimately show ?thesis by blast
  qed
  show ?thesis using a b c d by blast
qed

theorem Get_cost_witness:
  "1 \<le> unat (speed sample_edge) \<and> unat (speed sample_edge) \<le> 254 \<and>
   fl32 (length_m sample_edge) = length_m sample_edge \<and>
   1 / 2 ^ 100 \<le> length_m sample_edge \<and> length_m sample_edge \<le> 2 ^ 100 \<and>
   \<bar>length_m sample_edge\<bar> \<le> 2 ^ 100 \<and>
   speedfactor CreateAutoCost 60 = Some (1006633 / 16777216) \<and>
   Get CreateAutoCost sample_edge = Some (15728641 / 262144) \<and>
   \<bar>15728641 / 262144 - 1000 * (1006633 / 16777216 :: real)\<bar>
     \<le> 1000 * (1006633 / 16777216) / 2 ^ 24 \<and>
   \<bar>15728641 / 262144 - 1000 * ((3600 * 0.001) / 60 :: real)\<bar>
     \<le> 1000 * ((3600 * 0.001) / 60) / 2 ^ 22 \<and>
   speed (sample_edge\<lparr>speed := 0\<rparr>) = 0 \<and>
   Get CreateAutoCost (sample_edge\<lparr>speed := 0\<rparr>) = Some 3600000"
proof -
  have "fl32 (real 1000) = real 1000" by (rule fl32_of_nat) simp
  then have a: "fl32 (length_m sample_edge) = length_m sample_edge"
    by (simp add: sample_edge_def)
  have b: "unat (speed sample_edge) = 60" "length_m sample_edge = 1000"
    "speed (sample_edge\<lparr>speed := 0\<rparr>) = 0"
    by (simp_all add: sample_edge_def)
  show ?thesis
    using Get_cost [of sample_edge] Get_cost [of "sample_edge\<lparr>speed := 0\<rparr>"]
      a Get_1000_60 Get_1000_0 entry_60
    by (simp add: b)
qed

text \<open>
  C7: the table of the constructed object is strictly decreasing over the indices 1 to
  254: for every \<open>s\<close> from 2 to 254 both entries \<open>s - 1\<close> and \<open>s\<close> are written and the
  first is greater than the second (hence also greater or equal). The entries are the
  rounded ones.
\<close>

theorem speedfactor_decreasing:
  "\<forall>s \<in> {2..254}. \<exists>a b. speedfactor CreateAutoCost (s - 1) = Some a \<and>
       speedfactor CreateAutoCost s = Some b \<and> b < a \<and> b \<le> a"
proof
  fix s :: nat
  assume "s \<in> {2..254}"
  then have r: "2 \<le> s" "s \<le> 254" by auto
  define n where "n = s - 1"
  have s: "s = n + 1" and n: "1 \<le> n" "n \<le> 253"
    using r by (simp_all add: n_def)
  let ?a = "fl32 ((15099495 / 4194304) / real n)"
  let ?b = "fl32 ((15099495 / 4194304) / real (n + 1))"
  have "speedfactor CreateAutoCost (s - 1) = Some ?a"
    using s n by (simp add: speedfactor_entries)
  moreover have "speedfactor CreateAutoCost s = Some ?b"
    using n unfolding s by (simp add: speedfactor_entries)
  moreover have "?b < ?a" using n by (rule entries_decrease)
  ultimately show "\<exists>a b. speedfactor CreateAutoCost (s - 1) = Some a \<and>
       speedfactor CreateAutoCost s = Some b \<and> b < a \<and> b \<le> a"
    by auto
qed

theorem speedfactor_decreasing_witness:
  "(2 :: nat) \<in> {2..254} \<and>
   speedfactor CreateAutoCost 1 = Some (15099495 / 4194304) \<and>
   speedfactor CreateAutoCost 2 = Some (15099495 / 8388608) \<and>
   (15099495 / 8388608 :: real) < 15099495 / 4194304"
  using speedfactor_decreasing [THEN bspec, of 2] entry_1 entry_2 by simp

text \<open>
  C9: \<open>Get\<close> and \<open>Seconds\<close> return the same value for every edge, on every costing
  object: the float product of the length and the table's entry at the edge's speed.
\<close>

theorem Get_eq_Seconds:
  "Get this edge = Seconds this edge \<and>
   Get this edge =
     map_option (\<lambda>f. fmul (fl32 (length_m edge)) f) (speedfactor this (unat (speed edge)))"
  by (simp add: Get_def Seconds_def split: option.split)

section \<open>The A* heuristic\<close>

text \<open>
  C8 as stated fails by one rounding: on the path of a single edge of 17 m at speed
  120, the factor times the distance, \<open>17112761 / 2 ^ 25\<close>, exceeds the cost of the
  edge, \<open>17112760 / 2 ^ 25\<close>.
\<close>

theorem heuristic_exceeds_rounded_cost:
  "AStarCostFactor CreateAutoCost = Some (1006633 / 33554432) \<and>
   unat (speed (sample_edge\<lparr>length_m := 17, speed := 120\<rparr>)) = 120 \<and>
   sum_list (map length_m [sample_edge\<lparr>length_m := 17, speed := 120\<rparr>]) = 17 \<and>
   map (Get CreateAutoCost) [sample_edge\<lparr>length_m := 17, speed := 120\<rparr>] =
     map Some [2139095 / 4194304] \<and>
   \<not> (1006633 / 33554432 :: real) * 17 \<le> sum_list [2139095 / 4194304]"
  using entry_120 Get_17_120 by (simp add: AStarCostFactor_def sample_edge_def)

text \<open>
  C8, amended: \<open>AStarCostFactor\<close> is the table's entry 120, and it is admissible up to
  rounding. On a path whose edges all have a speed in 1..120 and a length that is a
  float, zero or from \<open>1 / 2 ^ 100\<close> to \<open>2 ^ 100\<close>, and whose lengths sum to \<open>distance\<close>,
  every edge has a cost, the factor times \<open>distance\<close> times \<open>1 - 1 / 2 ^ 24\<close> is at
  most the sum of the costs, and for each edge the float product of the factor and the
  edge's length is at most the edge's cost.
\<close>

theorem AStarCostFactor_admissible:
  assumes "\<forall>e \<in> set path. 1 \<le> unat (speed e) \<and> unat (speed e) \<le> 120 \<and>
             fl32 (length_m e) = length_m e \<and>
             (length_m e = 0 \<or> 1 / 2 ^ 100 \<le> length_m e) \<and> length_m e \<le> 2 ^ 100"
    and "sum_list (map length_m path) = distance"
  shows "AStarCostFactor CreateAutoCost = speedfactor CreateAutoCost 120 \<and>
         (\<exists>h costs. AStarCostFactor CreateAutoCost = Some h \<and>
              map (Get CreateAutoCost) path = map Some costs \<and>
              (1 - 1 / 2 ^ 24) * (h * distance) \<le> sum_list costs \<and>
              list_all2 (\<lambda>e c. fmul h (length_m e) \<le> c) path costs)"
proof -
  have h: "AStarCostFactor CreateAutoCost = Some (1006633 / 33554432)"
    using entry_120 by (simp add: AStarCostFactor_def)
  have "\<forall>e \<in> set path. 1 \<le> unat (speed e) \<and> unat (speed e) \<le> 120 \<and>
             fl32 (length_m e) = length_m e \<and>
             (length_m e = 0 \<or> 1 / 2 ^ 100 \<le> length_m e)"
    using assms(1) by blast
  from path_cost_bound [OF this] assms(2) obtain costs where
    "map (Get CreateAutoCost) path = map Some costs"
    "(1 - 1 / 2 ^ 24) * ((1006633 / 33554432) * distance) \<le> sum_list costs"
    "list_all2 (\<lambda>e c. fmul (1006633 / 33554432) (length_m e) \<le> c) path costs"
    by auto
  with h have "\<exists>h costs. AStarCostFactor CreateAutoCost = Some h \<and>
              map (Get CreateAutoCost) path = map Some costs \<and>
              (1 - 1 / 2 ^ 24) * (h * distance) \<le> sum_list costs \<and>
              list_all2 (\<lambda>e c. fmul h (length_m e) \<le> c) path costs"
    by blast
  then show ?thesis by (simp add: AStarCostFactor_def)
qed

theorem AStarCostFactor_admissible_witness:
  "1 \<le> unat (speed sample_edge) \<and> unat (speed sample_edge) \<le> 120 \<and>
   fl32 (length_m sample_edge) = length_m sample_edge \<and>
   1 / 2 ^ 100 \<le> length_m sample_edge \<and> length_m sample_edge \<le> 2 ^ 100 \<and>
   1 \<le> unat (speed (sample_edge\<lparr>length_m := 500, speed := 120\<rparr>)) \<and>
   unat (speed (sample_edge\<lparr>length_m := 500, speed := 120\<rparr>)) \<le> 120 \<and>
   fl32 (length_m (sample_edge\<lparr>length_m := 500, speed := 120\<rparr>)) =
     length_m (sample_edge\<lparr>length_m := 500, speed := 120\<rparr>) \<and>
   1 / 2 ^ 100 \<le> length_m (sample_edge\<lparr>length_m := 500, speed := 120\<rparr>) \<and>
   length_m (sample_edge\<lparr>length_m := 500, speed := 120\<rparr>) \<le> 2 ^ 100 \<and>
   sum_list (map length_m [sample_edge, sample_edge\<lparr>length_m := 500, speed := 120\<rparr>]) = 1500 \<and>
   AStarCostFactor CreateAutoCost = Some (1006633 / 33554432) \<and>
   map (Get CreateAutoCost) [sample_edge, sample_edge\<lparr>length_m := 500, speed := 120\<rparr>] =
     map Some [15728641 / 262144, 15728641 / 1048576] \<and>
   (1 - 1 / 2 ^ 24) * ((1006633 / 33554432 :: real) * 1500)
     \<le> sum_list [15728641 / 262144, 15728641 / 1048576]"
proof -
  have "fl32 (real 1000) = real 1000" and "fl32 (real 500) = real 500"
    by (rule fl32_of_nat, simp)+
  then have a: "fl32 (length_m sample_edge) = length_m sample_edge"
    "fl32 (length_m (sample_edge\<lparr>length_m := 500, speed := 120\<rparr>)) =
       length_m (sample_edge\<lparr>length_m := 500, speed := 120\<rparr>)"
    by (simp_all add: sample_edge_def)
  have b: "unat (speed sample_edge) = 60" "length_m sample_edge = 1000"
    "unat (speed (sample_edge\<lparr>length_m := 500, speed := 120\<rparr>)) = 120"
    "length_m (sample_edge\<lparr>length_m := 500, speed := 120\<rparr>) = 500"
    by (simp_all add: sample_edge_def)
  show ?thesis
    using AStarCostFactor_admissible
            [of "[sample_edge, sample_edge\<lparr>length_m := 500, speed := 120\<rparr>]" 1500]
      a Get_1000_60 Get_500_120 entry_120
    by (simp add: b AStarCostFactor_def)
qed

end
